theory Spec2Isabelle
  imports Main "HOL-Library.Word"
begin

unbundle bit_operations_syntax

section \<open>Bytes, errors and the result type\<close>

text \<open>
  The program is \<^verbatim>\<open>scripts/generate-apns-iconset.py\<close>. Python \<^verbatim>\<open>bytes\<close> are lists of
  8-bit words, Python integers are \<^typ>\<open>int\<close>, and every exception the script can
  meet is a value of \<open>error\<close>; a computation that may raise returns \<open>error + 'a\<close>
  with \<open>Inl\<close> for the exception.
\<close>

type_synonym byte = "8 word"
type_synonym bytes = "byte list"

datatype error =
    StructError          \<comment> \<open>\<^verbatim>\<open>struct.error\<close>: argument out of range for the format\<close>
  | ValueError           \<comment> \<open>\<^verbatim>\<open>bytes(...)\<close> of an integer outside \<open>range(256)\<close>\<close>
  | ZlibError            \<comment> \<open>\<^verbatim>\<open>zlib.error\<close>\<close>
  | MemoryError
  | FileExistsError
  | FileNotFoundError
  | NotADirectoryError
  | IsADirectoryError

definition bind :: "error + 'a \<Rightarrow> ('a \<Rightarrow> error + 'b) \<Rightarrow> error + 'b" where
  "bind m f = (case m of Inl e \<Rightarrow> Inl e | Inr x \<Rightarrow> f x)"

definition ascii :: "string \<Rightarrow> bytes" where
  "ascii s = map (\<lambda>c. of_nat (of_char c)) s"

section \<open>The library primitives the script calls\<close>

subsection \<open>\<^verbatim>\<open>struct.pack\<close> with a network-order format\<close>

text \<open>
  \<open>be_bytes k n\<close> are the \<open>k\<close> low-order bytes of \<open>n\<close>, most significant first.
  \<^verbatim>\<open>struct.pack('!I', n)\<close> raises \<^verbatim>\<open>struct.error\<close> unless \<open>0 \<le> n < 2^32\<close>, and
  \<^verbatim>\<open>'B'\<close> unless \<open>0 \<le> n < 256\<close>; with \<^verbatim>\<open>'!'\<close> there is no padding between items.
\<close>

fun be_bytes :: "nat \<Rightarrow> int \<Rightarrow> bytes" where
  "be_bytes 0 n = []"
| "be_bytes (Suc k) n = be_bytes k (n div 256) @ [word_of_int n]"

datatype fmt = FmtI | FmtB

fun fmt_size :: "fmt \<Rightarrow> nat" where
  "fmt_size FmtI = 4"
| "fmt_size FmtB = 1"

definition pack_item :: "fmt \<Rightarrow> int \<Rightarrow> error + bytes" where
  "pack_item f n =
     (if 0 \<le> n \<and> n < 256 ^ fmt_size f then Inr (be_bytes (fmt_size f) n)
      else Inl StructError)"

fun struct_pack :: "fmt list \<Rightarrow> int list \<Rightarrow> error + bytes" where
  "struct_pack [] [] = Inr []"
| "struct_pack (f # fs) (v # vs) =
     bind (pack_item f v) (\<lambda>a. bind (struct_pack fs vs) (\<lambda>b. Inr (a @ b)))"
| "struct_pack _ _ = Inl StructError"

subsection \<open>\<^verbatim>\<open>zlib.crc32\<close>\<close>

text \<open>
  The CRC-32 of ISO 3309 / ITU-T V.42 that zlib and PNG use: reflected polynomial
  \<open>0xEDB88320\<close>, initial value and final complement \<open>0xFFFFFFFF\<close>, one bit at a time.
  The result is the unsigned value, as Python 3 returns it.
\<close>

definition crc_bit :: "32 word \<Rightarrow> 32 word" where
  "crc_bit c = (if bit c 0 then drop_bit 1 c XOR 0xEDB88320 else drop_bit 1 c)"

definition crc_byte :: "32 word \<Rightarrow> byte \<Rightarrow> 32 word" where
  "crc_byte c b = (crc_bit ^^ 8) (c XOR ucast b)"

definition crc32 :: "bytes \<Rightarrow> int" where
  "crc32 bs = uint (foldl crc_byte 0xFFFFFFFF bs XOR 0xFFFFFFFF)"

subsection \<open>Python sequence operations\<close>

text \<open>
  \<^verbatim>\<open>bytes(t)\<close> of a tuple of integers raises \<^verbatim>\<open>ValueError\<close> when one is outside
  \<open>range(256)\<close>; \<^verbatim>\<open>b * n\<close> is empty for \<open>n \<le> 0\<close>; \<^verbatim>\<open>range(n)\<close> is empty for \<open>n \<le> 0\<close>.
\<close>

fun py_bytes :: "int list \<Rightarrow> error + bytes" where
  "py_bytes [] = Inr []"
| "py_bytes (v # vs) =
     (if 0 \<le> v \<and> v < 256 then bind (py_bytes vs) (\<lambda>r. Inr (word_of_int v # r))
      else Inl ValueError)"

definition bytes_mul :: "bytes \<Rightarrow> int \<Rightarrow> bytes" where
  "bytes_mul b n = (if n \<le> 0 then [] else concat (replicate (nat n) b))"

definition py_range :: "int \<Rightarrow> int list" where
  "py_range n = (if n \<le> 0 then [] else map int [0..<nat n])"

section \<open>The encoder\<close>

text \<open>
  \<^verbatim>\<open>zlib.compress(data, level=9)\<close> is a parameter of the model: a function from the
  data and the level to the compressed bytes or an exception.
\<close>

type_synonym compressor = "bytes \<Rightarrow> int \<Rightarrow> error + bytes"

text \<open>
  \<^verbatim>\<open>_chunk\<close> and \<^verbatim>\<open>_encode_png\<close> follow, statement by statement and in the order Python
  evaluates them, so that the first failing call decides the exception.
\<close>

definition COLOR :: "int list" where
  "COLOR = [0x3B, 0x82, 0xF6, 0xFF]"

definition chunk :: "bytes \<Rightarrow> bytes \<Rightarrow> error + bytes" where
  "chunk tag data =
     bind (struct_pack [FmtI] [int (length data)]) (\<lambda>len.
     bind (struct_pack [FmtI] [crc32 (tag @ data) AND 0xFFFFFFFF]) (\<lambda>crc.
     Inr (len @ tag @ data @ crc)))"

definition png_signature :: bytes where
  "png_signature = [0x89] @ ascii ''PNG'' @ [0x0D, 0x0A, 0x1A, 0x0A]"

definition raw_stream :: "bytes \<Rightarrow> int \<Rightarrow> int \<Rightarrow> bytes" where
  "raw_stream row width height =
     concat (map (\<lambda>_. [0x00] @ bytes_mul row width) (py_range height))"

definition encode_png :: "compressor \<Rightarrow> int \<Rightarrow> error + bytes" where
  "encode_png compress sz =
     (let width = sz; height = sz in
      bind (struct_pack [FmtI, FmtI, FmtB, FmtB, FmtB, FmtB, FmtB]
                        [width, height, 8, 6, 0, 0, 0]) (\<lambda>ihdr.
      bind (py_bytes COLOR) (\<lambda>row.
      let raw = raw_stream row width height in
      bind (compress raw 9) (\<lambda>idat.
      bind (chunk (ascii ''IHDR'') ihdr) (\<lambda>c1.
      bind (chunk (ascii ''IDAT'') idat) (\<lambda>c2.
      bind (chunk (ascii ''IEND'') []) (\<lambda>c3.
      Inr (concat [png_signature, c1, c2, c3]))))))))"

section \<open>The generation workflow\<close>

text \<open>
  A \<^verbatim>\<open>pathlib.Path\<close> is the list of its parts; the script only uses relative paths.
  The file system maps a path to a directory or to a file with its contents, and the
  working directory (the empty path) is a directory. The world also records, in
  order, every file write and every line printed.
\<close>

type_synonym path = "string list"

fun split_sep :: "string \<Rightarrow> string \<Rightarrow> string list" where
  "split_sep cur [] = [cur]"
| "split_sep cur (c # cs) =
     (if c = CHR ''/'' then cur # split_sep [] cs else split_sep (cur @ [c]) cs)"

definition Path :: "string \<Rightarrow> path" where
  "Path s = filter (\<lambda>x. x \<noteq> [] \<and> x \<noteq> ''.'') (split_sep [] s)"

text \<open>
  \<^verbatim>\<open>p / s\<close> for a relative \<open>s\<close> appends the parts of \<open>s\<close>; \<^verbatim>\<open>str(p)\<close> joins the parts with
  a slash.
\<close>

definition path_join :: "path \<Rightarrow> string \<Rightarrow> path" where
  "path_join p s = p @ Path s"

definition path_str :: "path \<Rightarrow> string" where
  "path_str p = (case p of [] \<Rightarrow> ''.'' | x # xs \<Rightarrow> foldl (\<lambda>a b. a @ ''/'' @ b) x xs)"

datatype node = Dir | File bytes

datatype event = Wrote path bytes | Printed string

type_synonym files = "path \<rightharpoonup> node"

record world =
  fs :: files
  trace :: "event list"

definition node_at :: "files \<Rightarrow> path \<Rightarrow> node option" where
  "node_at f p = (if p = [] then Some Dir else f p)"

definition os_mkdir :: "path \<Rightarrow> files \<Rightarrow> error + files" where
  "os_mkdir p f =
     (case node_at f p of
        Some _ \<Rightarrow> Inl FileExistsError
      | None \<Rightarrow>
          (case node_at f (butlast p) of
             None \<Rightarrow> Inl FileNotFoundError
           | Some (File _) \<Rightarrow> Inl NotADirectoryError
           | Some Dir \<Rightarrow> Inr (f(p \<mapsto> Dir))))"

text \<open>
  \<^verbatim>\<open>Path.mkdir\<close> as pathlib writes it: try \<^verbatim>\<open>os.mkdir\<close>; on \<^verbatim>\<open>FileNotFoundError\<close>
  create the parent with \<^verbatim>\<open>parents=True, exist_ok=True\<close> and retry without
  \<^verbatim>\<open>parents\<close>; on any other \<^verbatim>\<open>OSError\<close> re-raise unless \<^verbatim>\<open>exist_ok\<close> holds and the
  path is a directory.
\<close>

definition mkdir_single :: "path \<Rightarrow> bool \<Rightarrow> files \<Rightarrow> error + files" where
  "mkdir_single p exist_ok f =
     (case os_mkdir p f of
        Inr f' \<Rightarrow> Inr f'
      | Inl e \<Rightarrow>
          if e = FileNotFoundError then Inl e
          else if \<not> exist_ok \<or> node_at f p \<noteq> Some Dir then Inl e
          else Inr f)"

function mkdir_parents :: "path \<Rightarrow> bool \<Rightarrow> files \<Rightarrow> error + files" where
  "mkdir_parents p exist_ok f =
     (case os_mkdir p f of
        Inr f' \<Rightarrow> Inr f'
      | Inl e \<Rightarrow>
          if e = FileNotFoundError then
            (if p = [] then Inl e
             else bind (mkdir_parents (butlast p) True f) (\<lambda>f1. mkdir_single p exist_ok f1))
          else if \<not> exist_ok \<or> node_at f p \<noteq> Some Dir then Inl e
          else Inr f)"
  by pat_completeness auto
termination
  by (relation "measure (\<lambda>(p, e, f). length p)") auto

declare mkdir_parents.simps [simp del]

text \<open>
  \<^verbatim>\<open>Path.write_bytes\<close> opens the file for writing in binary mode, which creates or
  truncates it, and writes the data; it raises when the path is a directory or its
  parent is not one.
\<close>

definition write_bytes :: "path \<Rightarrow> bytes \<Rightarrow> world \<Rightarrow> error + world" where
  "write_bytes p dat w =
     (case node_at (fs w) p of
        Some Dir \<Rightarrow> Inl IsADirectoryError
      | _ \<Rightarrow>
          (case node_at (fs w) (butlast p) of
             None \<Rightarrow> Inl FileNotFoundError
           | Some (File _) \<Rightarrow> Inl NotADirectoryError
           | Some Dir \<Rightarrow>
               Inr (w\<lparr>fs := (fs w)(p \<mapsto> File dat), trace := trace w @ [Wrote p dat]\<rparr>)))"

definition print :: "string \<Rightarrow> world \<Rightarrow> world" where
  "print s w = w\<lparr>trace := trace w @ [Printed s]\<rparr>"

text \<open>\<^verbatim>\<open>str(i)\<close> of an integer, as the f-string formats \<^verbatim>\<open>{size}\<close>: its decimal digits.\<close>

function digits :: "nat \<Rightarrow> string" where
  "digits n =
     (if n < 10 then [''0123456789'' ! n]
      else digits (n div 10) @ [''0123456789'' ! (n mod 10)])"
  by pat_completeness auto
termination
  by (relation "measure id") auto

declare digits.simps [simp del]

definition py_str :: "int \<Rightarrow> string" where
  "py_str i = (if i < 0 then CHR ''-'' # digits (nat (- i)) else digits (nat i))"

definition ICONSET_DIR :: path where
  "ICONSET_DIR = Path ''client/push-package/icon.iconset''"

text \<open>
  \<^verbatim>\<open>SIZES\<close> is a dict literal with distinct keys; \<^verbatim>\<open>SIZES.items()\<close> iterates it in
  insertion order, so it is the list of its items as written.
\<close>

definition SIZES :: "(string \<times> int) list" where
  "SIZES =
     [(''icon_16x16'', 16),
      (''icon_16x16@2x'', 32),
      (''icon_32x32'', 32),
      (''icon_32x32@2x'', 64),
      (''icon_128x128'', 128),
      (''icon_256x256'', 256)]"

text \<open>
  The loop of \<^verbatim>\<open>main\<close>, one equation per iteration: encode, write, print. An exception
  ends the run and leaves the files written so far.
\<close>

fun main_loop :: "compressor \<Rightarrow> (string \<times> int) list \<Rightarrow> world \<Rightarrow> error + world" where
  "main_loop compress [] w = Inr w"
| "main_loop compress ((name, sz) # items) w =
     bind (encode_png compress sz) (\<lambda>png_bytes.
     let output_path = path_join ICONSET_DIR (name @ ''.png'') in
     bind (write_bytes output_path png_bytes w) (\<lambda>w1.
     main_loop compress items
       (print (''Wrote '' @ path_str output_path @ '' ('' @ py_str sz @ ''x'' @ py_str sz @ '')'')
          w1)))"

definition main :: "compressor \<Rightarrow> world \<Rightarrow> error + world" where
  "main compress w =
     bind (mkdir_parents ICONSET_DIR True (fs w)) (\<lambda>f1.
     main_loop compress SIZES (w\<lparr>fs := f1\<rparr>))"

section \<open>A reference reader for the produced format\<close>

text \<open>
  The claims speak of decoding the output with a conformant PNG reader. The reader
  below follows the PNG specification (ISO/IEC 15948) for the part of the format the
  encoder uses: the signature, the chunk layout with its CRC check, the \<open>IHDR\<close>
  fields, the concatenated \<open>IDAT\<close> stream, scanline filters 0 to 4 and 8-bit RGBA
  pixels. It rejects what it does not support (other colour types and bit depths,
  interlacing, unknown critical chunks), so whatever it accepts a conformant reader
  accepts. Inflating the zlib stream is a parameter, as compression is for the
  encoder.
\<close>

definition be_val :: "bytes \<Rightarrow> nat" where
  "be_val bs = foldl (\<lambda>a b. a * 256 + unat b) 0 bs"

function read_chunks :: "bytes \<Rightarrow> (bytes \<times> bytes) list option" where
  "read_chunks bs =
     (if bs = [] then Some []
      else if length bs < 12 then None
      else
        let n = be_val (take 4 bs); tag = take 4 (drop 4 bs) in
        if 2 ^ 31 \<le> n \<or> length bs < n + 12 then None
        else
          let dat = take n (drop 8 bs); crc = take 4 (drop (8 + n) bs) in
          if int (be_val crc) \<noteq> crc32 (tag @ dat) then None
          else (case read_chunks (drop (12 + n) bs) of
                  None \<Rightarrow> None
                | Some cs \<Rightarrow> Some ((tag, dat) # cs)))"
  by pat_completeness auto
termination
  by (relation "measure length") auto

declare read_chunks.simps [simp del]

definition ancillary :: "bytes \<Rightarrow> bool" where
  "ancillary tag = (case tag of [] \<Rightarrow> False | t # _ \<Rightarrow> bit t 5)"

definition parse_ihdr :: "bytes \<Rightarrow> (nat \<times> nat) option" where
  "parse_ihdr h =
     (if length h \<noteq> 13 then None
      else
        let w = be_val (take 4 h); ht = be_val (take 4 (drop 4 h)) in
        if w = 0 \<or> ht = 0 \<or> 2 ^ 31 \<le> w \<or> 2 ^ 31 \<le> ht then None
        else if drop 8 h \<noteq> [8, 6, 0, 0, 0] then None
        else Some (w, ht))"

definition paeth :: "byte \<Rightarrow> byte \<Rightarrow> byte \<Rightarrow> byte" where
  "paeth a b c =
     (let p = uint a + uint b - uint c;
          pa = \<bar>p - uint a\<bar>; pb = \<bar>p - uint b\<bar>; pc = \<bar>p - uint c\<bar>
      in if pa \<le> pb \<and> pa \<le> pc then a else if pb \<le> pc then b else c)"

text \<open>
  \<open>recon ft prior acc todo\<close> reconstructs one scanline of 4-byte pixels: \<open>acc\<close> are
  the bytes already reconstructed, \<open>prior\<close> is the reconstructed scanline above.
\<close>

fun recon :: "nat \<Rightarrow> bytes \<Rightarrow> bytes \<Rightarrow> bytes \<Rightarrow> bytes option" where
  "recon ft prior acc [] = Some acc"
| "recon ft prior acc (x # xs) =
     (let i = length acc;
          a = (if 4 \<le> i then acc ! (i - 4) else 0);
          b = (if i < length prior then prior ! i else 0);
          c = (if 4 \<le> i \<and> i < length prior + 4 then prior ! (i - 4) else 0)
      in if ft = 0 then recon ft prior (acc @ [x]) xs
         else if ft = 1 then recon ft prior (acc @ [x + a]) xs
         else if ft = 2 then recon ft prior (acc @ [x + b]) xs
         else if ft = 3 then recon ft prior (acc @ [x + word_of_int ((uint a + uint b) div 2)]) xs
         else if ft = 4 then recon ft prior (acc @ [x + paeth a b c]) xs
         else None)"

fun unfilter :: "bytes \<Rightarrow> bytes list \<Rightarrow> bytes list option" where
  "unfilter prior [] = Some []"
| "unfilter prior (l # ls) =
     (case l of
        [] \<Rightarrow> None
      | ft # xs \<Rightarrow>
          (case recon (unat ft) prior [] xs of
             None \<Rightarrow> None
           | Some r \<Rightarrow>
               (case unfilter r ls of None \<Rightarrow> None | Some rs \<Rightarrow> Some (r # rs))))"

fun scanlines :: "nat \<Rightarrow> nat \<Rightarrow> bytes \<Rightarrow> bytes list" where
  "scanlines 0 n bs = []"
| "scanlines (Suc h) n bs = take n bs # scanlines h n (drop n bs)"

type_synonym rgba = "byte \<times> byte \<times> byte \<times> byte"

fun pixels_of :: "bytes \<Rightarrow> rgba list" where
  "pixels_of (r # g # b # a # rest) = (r, g, b, a) # pixels_of rest"
| "pixels_of _ = []"

record image =
  img_width :: nat
  img_height :: nat
  img_pixels :: "rgba list list"

definition is_idat :: "bytes \<times> bytes \<Rightarrow> bool" where
  "is_idat c = (fst c = ascii ''IDAT'')"

definition decode_idat :: "(bytes \<Rightarrow> bytes option) \<Rightarrow> nat \<Rightarrow> nat \<Rightarrow> bytes \<Rightarrow> image option" where
  "decode_idat inflate w ht z =
     (case inflate z of
        None \<Rightarrow> None
      | Some raw \<Rightarrow>
          if length raw \<noteq> ht * (1 + 4 * w) then None
          else (case unfilter (replicate (4 * w) 0) (scanlines ht (1 + 4 * w) raw) of
                  None \<Rightarrow> None
                | Some rows \<Rightarrow>
                    Some \<lparr>img_width = w, img_height = ht, img_pixels = map pixels_of rows\<rparr>))"

definition png_read :: "(bytes \<Rightarrow> bytes option) \<Rightarrow> bytes \<Rightarrow> image option" where
  "png_read inflate bs =
     (if take 8 bs \<noteq> png_signature then None
      else (case read_chunks (drop 8 bs) of
              None \<Rightarrow> None
            | Some [] \<Rightarrow> None
            | Some ((t, h) # cs) \<Rightarrow>
                if t \<noteq> ascii ''IHDR'' then None
                else (case parse_ihdr h of
                        None \<Rightarrow> None
                      | Some (w, ht) \<Rightarrow>
                          if cs = [] \<or> last cs \<noteq> (ascii ''IEND'', []) then None
                          else
                            let mid = butlast cs;
                                pre = takeWhile (\<lambda>c. \<not> is_idat c) mid;
                                idats = takeWhile is_idat (dropWhile (\<lambda>c. \<not> is_idat c) mid);
                                post = dropWhile is_idat (dropWhile (\<lambda>c. \<not> is_idat c) mid)
                            in if idats = [] \<or> \<not> list_all (\<lambda>c. ancillary (fst c)) (pre @ post)
                               then None
                               else decode_idat inflate w ht (concat (map snd idats)))))"

section \<open>A reference instance of the compression primitive\<close>

text \<open>
  Statements about concrete bytes need a concrete compressor. \<open>zlib_store\<close> writes a
  zlib stream (RFC 1950) whose deflate data (RFC 1951) are stored blocks of at most
  65535 bytes, closed by the Adler-32 of the data, as zlib itself does at level 0;
  \<open>zlib_store_inflate\<close> reads such a stream back. At level 9 zlib emits other, shorter
  bytes for the same data; the general theorems hold for every compressor.
\<close>

definition adler32 :: "bytes \<Rightarrow> int" where
  "adler32 bs =
     (let ab = foldl (\<lambda>ab x. let a = (fst ab + uint x) mod 65521
                              in (a, (snd ab + a) mod 65521)) (1, 0) bs
      in snd ab * 65536 + fst ab)"

definition le16 :: "nat \<Rightarrow> bytes" where
  "le16 n = [of_nat n, of_nat (n div 256)]"

function stored_blocks :: "bytes \<Rightarrow> bytes" where
  "stored_blocks bs =
     (if length bs \<le> 65535
      then [0x01] @ le16 (length bs) @ le16 (65535 - length bs) @ bs
      else [0x00] @ le16 65535 @ le16 0 @ take 65535 bs @ stored_blocks (drop 65535 bs))"
  by pat_completeness auto
termination
  by (relation "measure length") auto

declare stored_blocks.simps [simp del]

definition zlib_store :: compressor where
  "zlib_store dat level =
     (if - 1 \<le> level \<and> level \<le> 9
      then Inr ([0x78, 0x01] @ stored_blocks dat @ be_bytes 4 (adler32 dat))
      else Inl ZlibError)"

function inflate_stored :: "bytes \<Rightarrow> (bytes \<times> bytes) option" where
  "inflate_stored bs =
     (if length bs < 5 then None
      else
        let h = bs ! 0;
            len = unat (bs ! 1) + 256 * unat (bs ! 2);
            nlen = unat (bs ! 3) + 256 * unat (bs ! 4);
            rest = drop 5 bs
        in if h AND 6 \<noteq> 0 \<or> len + nlen \<noteq> 65535 \<or> length rest < len then None
           else if bit h 0 then Some (take len rest, drop len rest)
           else (case inflate_stored (drop len rest) of
                   None \<Rightarrow> None
                 | Some (out, r) \<Rightarrow> Some (take len rest @ out, r)))"
  by pat_completeness auto
termination
  by (relation "measure length") auto

declare inflate_stored.simps [simp del]

definition zlib_store_inflate :: "bytes \<Rightarrow> bytes option" where
  "zlib_store_inflate z =
     (if length z < 2 then None
      else
        let cmf = z ! 0; flg = z ! 1 in
        if cmf AND 0x0F \<noteq> 8 \<or> 7 < drop_bit 4 cmf \<or> (unat cmf * 256 + unat flg) mod 31 \<noteq> 0
           \<or> bit flg 5
        then None
        else (case inflate_stored (drop 2 z) of
                None \<Rightarrow> None
              | Some (out, trailer) \<Rightarrow> if trailer = be_bytes 4 (adler32 out) then Some out else None))"

section \<open>Vocabulary of the statements\<close>

text \<open>
  \<open>wrap tag payload\<close> is a block as the specification describes it: the payload
  length in four big-endian bytes, the tag, the payload, and the CRC-32 of tag and
  payload in four big-endian bytes. \<open>wrapped tag payload blk\<close> says the same of a
  given byte string by reading it back field by field.
\<close>

definition wrap :: "bytes \<Rightarrow> bytes \<Rightarrow> bytes" where
  "wrap tag payload =
     be_bytes 4 (int (length payload)) @ tag @ payload @ be_bytes 4 (crc32 (tag @ payload))"


text \<open>
  The uncompressed pixel stream in the specification's words: for each of \<open>n\<close> rows,
  one \<open>0x00\<close> filter byte followed by \<open>n\<close> repetitions of the colour's four bytes.
\<close>

definition pixel_stream :: "nat \<Rightarrow> bytes" where
  "pixel_stream n = concat (replicate n ([0x00] @ concat (replicate n [0x3B, 0x82, 0xF6, 0xFF])))"

text \<open>
  \<open>writes_of\<close> projects a trace to its file writes. \<open>record_item\<close> is the effect on
  the world of one successful iteration of the loop in \<^verbatim>\<open>main\<close>: the file written
  and the line printed.
\<close>

fun writes_of :: "event list \<Rightarrow> (path \<times> bytes) list" where
  "writes_of [] = []"
| "writes_of (Wrote p b # es) = (p, b) # writes_of es"
| "writes_of (Printed s # es) = writes_of es"

definition record_item :: "world \<Rightarrow> (string \<times> int) \<times> bytes \<Rightarrow> world" where
  "record_item w it =
     (let p = path_join ICONSET_DIR (fst (fst it) @ ''.png'') in
      w\<lparr>fs := (fs w)(p \<mapsto> File (snd it)),
         trace := trace w @
           [Wrote p (snd it),
            Printed (''Wrote '' @ path_str p @ '' ('' @ py_str (snd (fst it)) @ ''x''
                     @ py_str (snd (fst it)) @ '')'')]\<rparr>)"

section \<open>Packing, checksums and blocks\<close>

lemma bind_Inr [simp]: "bind (Inr x) f = f x" by (simp add: bind_def)
lemma bind_Inl [simp]: "bind (Inl e) f = Inl e" by (simp add: bind_def)

lemma length_be_bytes [simp]: "length (be_bytes k n) = k"
  by (induction k arbitrary: n) auto

lemma be_val_snoc: "be_val (xs @ [b]) = be_val xs * 256 + unat b"
  by (simp add: be_val_def)

lemma unat_byte_of_int: "unat (word_of_int k :: byte) = nat (k mod 256)"
  by (simp add: unat_eq_nat_uint uint_word_of_int take_bit_eq_mod)

lemma be_val_be_bytes: "int (be_val (be_bytes k n)) = n mod 256 ^ k"
proof (induction k arbitrary: n)
  case 0
  show ?case by (simp add: be_val_def)
next
  case (Suc k)
  have "int (be_val (be_bytes (Suc k) n)) = (n div 256 mod 256 ^ k) * 256 + n mod 256"
    by (simp add: be_val_snoc unat_byte_of_int Suc.IH)
  also have "\<dots> = n mod 256 ^ Suc k"
    using zmod_zmult2_eq [of "256 ^ k" n 256] by simp
  finally show ?case .
qed

lemma be_val_be_bytes_id: "0 \<le> n \<Longrightarrow> n < 256 ^ k \<Longrightarrow> int (be_val (be_bytes k n)) = n"
  by (simp add: be_val_be_bytes)

lemma crc32_range: "0 \<le> crc32 bs \<and> crc32 bs < 2 ^ 32"
proof -
  have "uint (w :: 32 word) < 2 ^ 32" for w
    using uint_bounded [of w] by simp
  then show ?thesis by (simp add: crc32_def)
qed

lemma mask32_int: "(x::int) AND 0xFFFFFFFF = take_bit 32 x"
  by (simp add: take_bit_eq_mask mask_eq_exp_minus_1)

lemma crc32_mask [simp]: "crc32 bs AND 0xFFFFFFFF = crc32 bs"
  unfolding mask32_int using crc32_range [of bs] by (simp add: take_bit_int_eq_self)

lemma chunk_eq:
  "chunk tag dat = (if length dat < 2 ^ 32 then Inr (wrap tag dat) else Inl StructError)"
  using crc32_range [of "tag @ dat"]
  by (simp add: chunk_def pack_item_def wrap_def del: be_bytes.simps)

lemma py_bytes_COLOR: "py_bytes COLOR = Inr [0x3B, 0x82, 0xF6, 0xFF]"
  by (simp add: COLOR_def)

lemma be_bytes_1: "be_bytes (Suc 0) n = [word_of_int n]"
  by simp

lemma pack_ihdr:
  "struct_pack [FmtI, FmtI, FmtB, FmtB, FmtB, FmtB, FmtB] [w, h, 8, 6, 0, 0, 0] =
     (if 0 \<le> w \<and> w < 2 ^ 32 \<and> 0 \<le> h \<and> h < 2 ^ 32
      then Inr (be_bytes 4 w @ be_bytes 4 h @ [8, 6, 0, 0, 0]) else Inl StructError)"
  by (simp add: pack_item_def be_bytes_1 del: be_bytes.simps)

lemma raw_stream_eq:
  "raw_stream row w h = concat (replicate (nat h) ([0x00] @ concat (replicate (nat w) row)))"
  by (simp add: raw_stream_def bytes_mul_def py_range_def map_replicate_const)

lemma encode_png_eq:
  "encode_png c sz =
     (if 0 \<le> sz \<and> sz < 2 ^ 32 then
        (case c (pixel_stream (nat sz)) 9 of
           Inl e \<Rightarrow> Inl e
         | Inr idat \<Rightarrow>
             if length idat < 2 ^ 32 then
               Inr (png_signature
                    @ wrap (ascii ''IHDR'') (be_bytes 4 sz @ be_bytes 4 sz @ [8, 6, 0, 0, 0])
                    @ wrap (ascii ''IDAT'') idat
                    @ wrap (ascii ''IEND'') [])
             else Inl StructError)
      else Inl StructError)"
  by (simp add: encode_png_def pack_ihdr py_bytes_COLOR raw_stream_eq pixel_stream_def chunk_eq
           split: sum.split del: be_bytes.simps struct_pack.simps)

lemma length_ascii [simp]: "length (ascii s) = length s"
  by (simp add: ascii_def)

lemma length_png_signature [simp]: "length png_signature = 8"
  by (simp add: png_signature_def)

lemma length_wrap [simp]: "length (wrap tag dat) = length dat + length tag + 8"
  by (simp add: wrap_def)

lemma be_val_len: "n < 2 ^ 32 \<Longrightarrow> be_val (be_bytes 4 (int n)) = n"
  using be_val_be_bytes_id [of "int n" 4] by simp

lemma be_val_crc: "int (be_val (be_bytes 4 (crc32 bs))) = crc32 bs"
  using be_val_be_bytes_id [of "crc32 bs" 4] crc32_range [of bs] by simp

section \<open>The reader on well-formed blocks\<close>

lemma read_chunks_wrap:
  assumes "length tag = 4" and "length dat < 2 ^ 31"
  shows "read_chunks (wrap tag dat @ rest) =
           (case read_chunks rest of None \<Rightarrow> None | Some cs \<Rightarrow> Some ((tag, dat) # cs))"
proof -
  let ?bs = "wrap tag dat @ rest"
  have len: "be_val (take 4 ?bs) = length dat"
    using assms by (simp add: wrap_def be_val_len del: be_bytes.simps)
  have tag: "take 4 (drop 4 ?bs) = tag"
    using assms by (simp add: wrap_def del: be_bytes.simps)
  have dat: "take (length dat) (drop 8 ?bs) = dat"
    using assms by (simp add: wrap_def del: be_bytes.simps)
  have crc: "take 4 (drop (8 + length dat) ?bs) = be_bytes 4 (crc32 (tag @ dat))"
    using assms by (simp add: wrap_def del: be_bytes.simps)
  have rest: "drop (12 + length dat) ?bs = rest"
    using assms by (simp add: wrap_def del: be_bytes.simps)
  have ne: "?bs \<noteq> []" "\<not> length ?bs < 12" "\<not> length ?bs < length dat + 12"
    using assms by (auto simp: wrap_def simp del: be_bytes.simps)
  show ?thesis
    apply (subst read_chunks.simps)
    apply (simp only: Let_def len tag dat crc rest be_val_crc ne if_False)
    using assms(2) apply simp
    done
qed

lemma read_chunks_Nil: "read_chunks [] = Some []"
  by (subst read_chunks.simps) simp

lemma recon_None_filter: "recon 0 prior acc xs = Some (acc @ xs)"
  by (induction xs arbitrary: acc) (simp_all add: Let_def)

lemma unfilter_replicate: "unfilter prior (replicate k (0 # row)) = Some (replicate k row)"
  by (induction k arbitrary: prior) (simp_all add: recon_None_filter)

lemma scanlines_replicate:
  "length r = n \<Longrightarrow> scanlines k n (concat (replicate k r)) = replicate k r"
  by (induction k) simp_all

lemma pixels_of_replicate:
  "pixels_of (concat (replicate k [r, g, b, a])) = replicate k (r, g, b, a)"
  by (induction k) simp_all

lemma length_concat_replicate: "length (concat (replicate k xs)) = k * length xs"
  by (induction k) simp_all

lemma length_pixel_stream: "length (pixel_stream n) = n * (1 + 4 * n)"
  by (simp add: pixel_stream_def length_concat_replicate)

lemma decode_idat_pixel_stream:
  assumes "inflate z = Some (pixel_stream n)"
  shows "decode_idat inflate n n z =
           Some \<lparr>img_width = n, img_height = n,
                 img_pixels = replicate n (replicate n (0x3B, 0x82, 0xF6, 0xFF))\<rparr>"
proof -
  let ?row = "concat (replicate n [0x3B, 0x82, 0xF6, 0xFF :: byte])"
  have sl: "scanlines n (Suc (4 * n)) (pixel_stream n) = replicate n (0 # ?row)"
    unfolding pixel_stream_def
    using scanlines_replicate [of "[0x00] @ ?row" "Suc (4 * n)" n]
    by (simp add: length_concat_replicate)
  show ?thesis
    by (simp add: decode_idat_def assms length_pixel_stream sl unfilter_replicate
          pixels_of_replicate)
qed

lemma parse_ihdr_square:
  assumes "0 < sz" and "sz < 2 ^ 31"
  shows "parse_ihdr (be_bytes 4 sz @ be_bytes 4 sz @ [8, 6, 0, 0, 0]) = Some (nat sz, nat sz)"
proof -
  have v: "be_val (be_bytes 4 sz) = nat sz"
    using be_val_be_bytes_id [of sz 4] assms by simp
  show ?thesis
    using assms by (simp add: parse_ihdr_def v Let_def del: be_bytes.simps)
qed


lemma png_read_layout:
  assumes sz: "0 < sz" "sz < 2 ^ 31"
    and len: "length idat < 2 ^ 31"
    and inf: "inflate idat = Some (pixel_stream (nat sz))"
  shows "png_read inflate
           (png_signature
            @ wrap (ascii ''IHDR'') (be_bytes 4 sz @ be_bytes 4 sz @ [8, 6, 0, 0, 0])
            @ wrap (ascii ''IDAT'') idat
            @ wrap (ascii ''IEND'') []) =
         Some \<lparr>img_width = nat sz, img_height = nat sz,
               img_pixels = replicate (nat sz) (replicate (nat sz) (0x3B, 0x82, 0xF6, 0xFF))\<rparr>"
proof -
  let ?h = "be_bytes 4 sz @ be_bytes 4 sz @ [8, 6, 0, 0, 0]"
  have chunks:
    "read_chunks (wrap (ascii ''IHDR'') ?h @ wrap (ascii ''IDAT'') idat @ wrap (ascii ''IEND'') [])
       = Some [(ascii ''IHDR'', ?h), (ascii ''IDAT'', idat), (ascii ''IEND'', [])]"
    using read_chunks_wrap [of "ascii ''IEND''" "[]" "[]"]
      read_chunks_wrap [of "ascii ''IDAT''" idat "wrap (ascii ''IEND'') []"]
      read_chunks_wrap [of "ascii ''IHDR''" ?h "wrap (ascii ''IDAT'') idat @ wrap (ascii ''IEND'') []"]
      len
    by (simp add: read_chunks_Nil del: be_bytes.simps)
  have idat: "is_idat (ascii ''IDAT'', idat)" "\<not> is_idat (ascii ''IEND'', [])"
    by (simp_all add: is_idat_def ascii_def)
  show ?thesis
    by (simp add: png_read_def chunks parse_ihdr_square [OF sz] idat
          decode_idat_pixel_stream [of inflate idat "nat sz", OF inf] del: be_bytes.simps)
qed

section \<open>The reference compressor\<close>

lemma unat_byte_of_nat: "unat (of_nat n :: byte) = n mod 256"
  by (simp add: unat_of_nat)

lemma le16_decode:
  assumes "n \<le> 65535"
  shows "unat (le16 n ! 0) + 256 * unat (le16 n ! 1) = n"
proof -
  have "n div 256 < 256" using assms by simp
  then show ?thesis by (simp add: le16_def unat_byte_of_nat)
qed

lemma length_le16 [simp]: "length (le16 n) = 2"
  by (simp add: le16_def)

lemma stored_block_layout:
  assumes "length b = 2" "length c = 2"
  shows "(h # b @ c @ rest) ! 0 = h" "(h # b @ c @ rest) ! 1 = b ! 0" "(h # b @ c @ rest) ! 2 = b ! 1"
    "(h # b @ c @ rest) ! 3 = c ! 0" "(h # b @ c @ rest) ! 4 = c ! 1" "drop 5 (h # b @ c @ rest) = rest"
    "\<not> length (h # b @ c @ rest) < 5"
proof -
  obtain b0 b1 where b: "b = [b0, b1]"
    using assms(1) by (metis (no_types, opaque_lifting) One_nat_def Suc_1 length_0_conv length_Suc_conv)
  obtain c0 c1 where c: "c = [c0, c1]"
    using assms(2) by (metis (no_types, opaque_lifting) One_nat_def Suc_1 length_0_conv length_Suc_conv)
  show "(h # b @ c @ rest) ! 0 = h" "(h # b @ c @ rest) ! 1 = b ! 0" "(h # b @ c @ rest) ! 2 = b ! 1"
    "(h # b @ c @ rest) ! 3 = c ! 0" "(h # b @ c @ rest) ! 4 = c ! 1" "drop 5 (h # b @ c @ rest) = rest"
    "\<not> length (h # b @ c @ rest) < 5"
    by (simp_all add: b c)
qed

lemma inflate_stored_blocks: "inflate_stored (stored_blocks x @ t) = Some (x, t)"
proof (induction x rule: stored_blocks.induct)
  case (1 bs)
  show ?case
  proof (cases "length bs \<le> 65535")
    case True
    let ?n = "length bs"
    have sb: "stored_blocks bs @ t = 0x01 # le16 ?n @ le16 (65535 - ?n) @ (bs @ t)"
      using True by (subst stored_blocks.simps) simp
    have n1: "unat (le16 ?n ! 0) + 256 * unat (le16 ?n ! 1) = ?n"
      using True by (rule le16_decode)
    have n2: "unat (le16 (65535 - ?n) ! 0) + 256 * unat (le16 (65535 - ?n) ! 1) = 65535 - ?n"
      by (rule le16_decode) simp
    show ?thesis
      unfolding sb
      apply (subst inflate_stored.simps)
      apply (simp only: stored_block_layout length_le16 Let_def if_False n1 n2)
      using True apply simp
      done
  next
    case False
    let ?n = "65535 :: nat"
    let ?rest = "take 65535 bs @ stored_blocks (drop 65535 bs) @ t"
    have sb: "stored_blocks bs @ t = 0x00 # le16 ?n @ le16 0 @ ?rest"
      using False by (subst stored_blocks.simps) simp
    have n1: "unat (le16 ?n ! 0) + 256 * unat (le16 ?n ! 1) = ?n"
      by (rule le16_decode) simp
    have n2: "unat (le16 0 ! 0) + 256 * unat (le16 0 ! 1) = 0"
      by (rule le16_decode) simp
    have tk: "take 65535 ?rest = take 65535 bs" "drop 65535 ?rest = stored_blocks (drop 65535 bs) @ t"
      "\<not> length ?rest < 65535"
      using False by simp_all
    show ?thesis
      unfolding sb
      apply (subst inflate_stored.simps)
      apply (simp only: stored_block_layout length_le16 Let_def if_False n1 n2 tk)
      using False "1.IH" apply simp
      done
  qed
qed

lemma zlib_store_roundtrip:
  assumes "zlib_store x lvl = Inr z"
  shows "zlib_store_inflate z = Some x"
proof -
  have z: "z = 0x78 # 0x01 # (stored_blocks x @ be_bytes 4 (adler32 x))"
    using assms by (simp add: zlib_store_def split: if_splits del: be_bytes.simps)
  show ?thesis
    unfolding z
    by (simp add: zlib_store_inflate_def inflate_stored_blocks del: be_bytes.simps)
qed

lemma length_stored_blocks:
  "length (stored_blocks x) \<le> length x + 5 + 5 * (length x div 65535)"
proof (induction x rule: stored_blocks.induct)
  case (1 bs)
  show ?case
  proof (cases "length bs \<le> 65535")
    case True
    then show ?thesis by (subst stored_blocks.simps) simp
  next
    case False
    have "length (stored_blocks bs) = 5 + 65535 + length (stored_blocks (drop 65535 bs))"
      using False by (subst stored_blocks.simps) simp
    also have "\<dots> \<le> 5 + 65535 + (length bs - 65535 + 5 + 5 * ((length bs - 65535) div 65535))"
      using "1.IH" False by simp
    also have "\<dots> = length bs + 5 + 5 * (length bs div 65535)"
      using False le_div_geq [of 65535 "length bs"] by simp
    finally show ?thesis .
  qed
qed

lemma length_stored_blocks_ge: "length x \<le> length (stored_blocks x)"
proof (induction x rule: stored_blocks.induct)
  case (1 bs)
  show ?case
  proof (cases "length bs \<le> 65535")
    case True
    then show ?thesis by (subst stored_blocks.simps) simp
  next
    case False
    have "length (stored_blocks bs) = 5 + 65535 + length (stored_blocks (drop 65535 bs))"
      using False by (subst stored_blocks.simps) simp
    then show ?thesis using "1.IH" False by simp
  qed
qed

lemma crc_byte_unfold:
  "crc_byte c b = crc_bit (crc_bit (crc_bit (crc_bit (crc_bit (crc_bit (crc_bit (crc_bit (c XOR ucast b))))))))"
  by (simp add: crc_byte_def eval_nat_numeral)

section \<open>The workflow\<close>

lemma ICONSET_DIR_parts: "ICONSET_DIR = [''client'', ''push-package'', ''icon.iconset'']"
  by (simp add: ICONSET_DIR_def Path_def)

lemma digits_lt10: "n < 10 \<Longrightarrow> digits n = [''0123456789'' ! n]"
  by (subst digits.simps) simp

lemma digits_ge10: "10 \<le> n \<Longrightarrow> digits n = digits (n div 10) @ [''0123456789'' ! (n mod 10)]"
  by (subst digits.simps) simp

lemma py_str_sizes:
  "py_str 16 = ''16''" "py_str 32 = ''32''" "py_str 64 = ''64''"
  "py_str 128 = ''128''" "py_str 256 = ''256''"
  by (simp_all add: py_str_def digits_ge10 digits_lt10)

lemma out_paths:
  "path_join ICONSET_DIR ''icon_16x16.png'' = [''client'', ''push-package'', ''icon.iconset'', ''icon_16x16.png'']"
  "path_join ICONSET_DIR ''icon_16x16@2x.png'' = [''client'', ''push-package'', ''icon.iconset'', ''icon_16x16@2x.png'']"
  "path_join ICONSET_DIR ''icon_32x32.png'' = [''client'', ''push-package'', ''icon.iconset'', ''icon_32x32.png'']"
  "path_join ICONSET_DIR ''icon_32x32@2x.png'' = [''client'', ''push-package'', ''icon.iconset'', ''icon_32x32@2x.png'']"
  "path_join ICONSET_DIR ''icon_128x128.png'' = [''client'', ''push-package'', ''icon.iconset'', ''icon_128x128.png'']"
  "path_join ICONSET_DIR ''icon_256x256.png'' = [''client'', ''push-package'', ''icon.iconset'', ''icon_256x256.png'']"
  by (simp_all add: path_join_def ICONSET_DIR_parts Path_def)

lemma write_bytes_Inr:
  "write_bytes p b w = Inr w1 \<Longrightarrow> w1 = w\<lparr>fs := (fs w)(p \<mapsto> File b), trace := trace w @ [Wrote p b]\<rparr>"
  by (auto simp: write_bytes_def split: option.splits node.splits)

lemma bind_eq_Inr: "bind m f = Inr y \<longleftrightarrow> (\<exists>x. m = Inr x \<and> f x = Inr y)"
  by (cases m) simp_all

lemma main_loop_Inr:
  "main_loop c items w = Inr w' \<Longrightarrow>
     \<exists>bs. list_all2 (\<lambda>it b. encode_png c (snd it) = Inr b) items bs \<and>
          w' = foldl record_item w (zip items bs)"
proof (induction items arbitrary: w)
  case Nil
  then show ?case by simp
next
  case (Cons it items)
  obtain name sz where it: "it = (name, sz)" by (cases it)
  let ?p = "path_join ICONSET_DIR (name @ ''.png'')"
  from Cons.prems obtain b w1 where b: "encode_png c sz = Inr b"
    and w1: "write_bytes ?p b w = Inr w1"
    and rest: "main_loop c items
                 (print (''Wrote '' @ path_str ?p @ '' ('' @ py_str sz @ ''x'' @ py_str sz @ '')'') w1)
               = Inr w'"
    by (auto simp: it bind_eq_Inr Let_def)
  from Cons.IH [OF rest] obtain bs
    where bs: "list_all2 (\<lambda>it b. encode_png c (snd it) = Inr b) items bs"
      and w': "w' = foldl record_item
                 (print (''Wrote '' @ path_str ?p @ '' ('' @ py_str sz @ ''x'' @ py_str sz @ '')'') w1)
                 (zip items bs)"
    by blast
  have "print (''Wrote '' @ path_str ?p @ '' ('' @ py_str sz @ ''x'' @ py_str sz @ '')'') w1
          = record_item w ((name, sz), b)"
    using write_bytes_Inr [OF w1] by (simp add: record_item_def print_def Let_def)
  with bs w' b have "list_all2 (\<lambda>it b. encode_png c (snd it) = Inr b) (it # items) (b # bs)
      \<and> w' = foldl record_item w (zip (it # items) (b # bs))"
    by (simp add: it)
  then show ?case by blast
qed

lemma sizes_results:
  assumes "list_all2 (\<lambda>it b. encode_png c (snd it) = Inr b) SIZES bs"
  shows "\<exists>b1 b2 b3 b4 b5 b6. bs = [b1, b2, b3, b4, b5, b6] \<and>
      encode_png c 16 = Inr b1 \<and> encode_png c 32 = Inr b2 \<and> encode_png c 32 = Inr b3 \<and>
      encode_png c 64 = Inr b4 \<and> encode_png c 128 = Inr b5 \<and> encode_png c 256 = Inr b6"
  using assms by (auto simp: SIZES_def list_all2_Cons1)

lemma record_item_sizes:
  "record_item w ((''icon_16x16'', 16), b) =
     w\<lparr>fs := (fs w)([''client'', ''push-package'', ''icon.iconset'', ''icon_16x16.png''] \<mapsto> File b),
       trace := trace w @ [Wrote [''client'', ''push-package'', ''icon.iconset'', ''icon_16x16.png''] b, Printed ''Wrote client/push-package/icon.iconset/icon_16x16.png (16x16)'']\<rparr>"
  "record_item w ((''icon_16x16@2x'', 32), b) =
     w\<lparr>fs := (fs w)([''client'', ''push-package'', ''icon.iconset'', ''icon_16x16@2x.png''] \<mapsto> File b),
       trace := trace w @ [Wrote [''client'', ''push-package'', ''icon.iconset'', ''icon_16x16@2x.png''] b, Printed ''Wrote client/push-package/icon.iconset/icon_16x16@2x.png (32x32)'']\<rparr>"
  "record_item w ((''icon_32x32'', 32), b) =
     w\<lparr>fs := (fs w)([''client'', ''push-package'', ''icon.iconset'', ''icon_32x32.png''] \<mapsto> File b),
       trace := trace w @ [Wrote [''client'', ''push-package'', ''icon.iconset'', ''icon_32x32.png''] b, Printed ''Wrote client/push-package/icon.iconset/icon_32x32.png (32x32)'']\<rparr>"
  "record_item w ((''icon_32x32@2x'', 64), b) =
     w\<lparr>fs := (fs w)([''client'', ''push-package'', ''icon.iconset'', ''icon_32x32@2x.png''] \<mapsto> File b),
       trace := trace w @ [Wrote [''client'', ''push-package'', ''icon.iconset'', ''icon_32x32@2x.png''] b, Printed ''Wrote client/push-package/icon.iconset/icon_32x32@2x.png (64x64)'']\<rparr>"
  "record_item w ((''icon_128x128'', 128), b) =
     w\<lparr>fs := (fs w)([''client'', ''push-package'', ''icon.iconset'', ''icon_128x128.png''] \<mapsto> File b),
       trace := trace w @ [Wrote [''client'', ''push-package'', ''icon.iconset'', ''icon_128x128.png''] b, Printed ''Wrote client/push-package/icon.iconset/icon_128x128.png (128x128)'']\<rparr>"
  "record_item w ((''icon_256x256'', 256), b) =
     w\<lparr>fs := (fs w)([''client'', ''push-package'', ''icon.iconset'', ''icon_256x256.png''] \<mapsto> File b),
       trace := trace w @ [Wrote [''client'', ''push-package'', ''icon.iconset'', ''icon_256x256.png''] b, Printed ''Wrote client/push-package/icon.iconset/icon_256x256.png (256x256)'']\<rparr>"
  by (simp_all add: record_item_def out_paths py_str_sizes path_str_def Let_def)

lemma fold_sizes:
  "foldl record_item w0 (zip SIZES [b1, b2, b3, b4, b5, b6]) =
     w0\<lparr>fs := (fs w0)
      ([''client'', ''push-package'', ''icon.iconset'', ''icon_16x16.png''] \<mapsto> File b1,
       [''client'', ''push-package'', ''icon.iconset'', ''icon_16x16@2x.png''] \<mapsto> File b2,
       [''client'', ''push-package'', ''icon.iconset'', ''icon_32x32.png''] \<mapsto> File b3,
       [''client'', ''push-package'', ''icon.iconset'', ''icon_32x32@2x.png''] \<mapsto> File b4,
       [''client'', ''push-package'', ''icon.iconset'', ''icon_128x128.png''] \<mapsto> File b5,
       [''client'', ''push-package'', ''icon.iconset'', ''icon_256x256.png''] \<mapsto> File b6),
      trace := trace w0 @
      [Wrote [''client'', ''push-package'', ''icon.iconset'', ''icon_16x16.png''] b1,
       Printed ''Wrote client/push-package/icon.iconset/icon_16x16.png (16x16)'',
       Wrote [''client'', ''push-package'', ''icon.iconset'', ''icon_16x16@2x.png''] b2,
       Printed ''Wrote client/push-package/icon.iconset/icon_16x16@2x.png (32x32)'',
       Wrote [''client'', ''push-package'', ''icon.iconset'', ''icon_32x32.png''] b3,
       Printed ''Wrote client/push-package/icon.iconset/icon_32x32.png (32x32)'',
       Wrote [''client'', ''push-package'', ''icon.iconset'', ''icon_32x32@2x.png''] b4,
       Printed ''Wrote client/push-package/icon.iconset/icon_32x32@2x.png (64x64)'',
       Wrote [''client'', ''push-package'', ''icon.iconset'', ''icon_128x128.png''] b5,
       Printed ''Wrote client/push-package/icon.iconset/icon_128x128.png (128x128)'',
       Wrote [''client'', ''push-package'', ''icon.iconset'', ''icon_256x256.png''] b6,
       Printed ''Wrote client/push-package/icon.iconset/icon_256x256.png (256x256)'']\<rparr>"
  by (simp add: SIZES_def record_item_sizes)

lemma pixel_stream_bound:
  assumes "n \<le> 256"
  shows "length (pixel_stream n) \<le> 262400"
proof -
  have "n * (1 + 4 * n) \<le> 256 * (1 + 4 * 256)"
    using assms by (intro mult_le_mono) simp_all
  then show ?thesis by (simp add: length_pixel_stream)
qed

lemma encode_png_store_ok:
  assumes "0 \<le> sz" and "sz \<le> 256"
  shows "\<exists>bs. encode_png zlib_store sz = Inr bs \<and> length bs < 2 ^ 31"
proof -
  let ?raw = "pixel_stream (nat sz)"
  let ?z = "[0x78, 0x01] @ stored_blocks ?raw @ be_bytes 4 (adler32 ?raw)"
  have raw: "length ?raw \<le> 262400"
    using assms by (intro pixel_stream_bound) simp
  have "length ?raw div 65535 \<le> 262400 div 65535"
    using raw by (rule div_le_mono)
  then have "length (stored_blocks ?raw) \<le> 262400 + 5 + 5 * 4"
    using length_stored_blocks [of ?raw] raw by simp
  then have len: "length ?z < 300000"
    by simp
  have c: "zlib_store ?raw 9 = Inr ?z"
    by (simp add: zlib_store_def)
  show ?thesis
    using assms len by (simp add: encode_png_eq c del: be_bytes.simps)
qed

lemma mkdir_iconset_empty:
  "mkdir_parents ICONSET_DIR True Map.empty =
     Inr [[''client''] \<mapsto> Dir, [''client'', ''push-package''] \<mapsto> Dir,
          [''client'', ''push-package'', ''icon.iconset''] \<mapsto> Dir]"
  by (simp add: ICONSET_DIR_parts mkdir_parents.simps mkdir_single_def os_mkdir_def node_at_def)

lemma os_mkdir_Inr: "os_mkdir p f = Inr f1 \<Longrightarrow> node_at f1 p = Some Dir"
  by (auto simp: os_mkdir_def node_at_def split: option.splits node.splits if_splits)

lemma mkdir_single_Inr: "mkdir_single p e f = Inr f1 \<Longrightarrow> node_at f1 p = Some Dir"
  by (auto simp: mkdir_single_def os_mkdir_Inr split: sum.splits if_splits)

lemma mkdir_parents_Inr:
  assumes "mkdir_parents p e f = Inr f1"
  shows "node_at f1 p = Some Dir"
proof (cases "os_mkdir p f")
  case (Inr f')
  with assms have "f1 = f'" by (subst (asm) mkdir_parents.simps) simp
  with Inr show ?thesis by (simp add: os_mkdir_Inr)
next
  case (Inl err)
  show ?thesis
  proof (cases "err = FileNotFoundError")
    case True
    with Inl assms obtain f' where "mkdir_single p e f' = Inr f1"
      by (subst (asm) mkdir_parents.simps) (auto simp: bind_eq_Inr split: if_splits)
    then show ?thesis by (rule mkdir_single_Inr)
  next
    case False
    with Inl assms show ?thesis
      by (subst (asm) mkdir_parents.simps) (auto split: if_splits)
  qed
qed

lemma write_bytes_returns:
  assumes "node_at (fs w) p \<noteq> Some Dir" and "node_at (fs w) (butlast p) = Some Dir"
  shows "write_bytes p b w = Inr (w\<lparr>fs := (fs w)(p \<mapsto> File b), trace := trace w @ [Wrote p b]\<rparr>)"
  using assms by (auto simp: write_bytes_def split: option.splits node.splits)

lemma main_loop_returns:
  assumes "\<forall>it \<in> set items. \<exists>b. encode_png c (snd it) = Inr b"
    and "node_at (fs w) ICONSET_DIR = Some Dir"
    and "\<forall>it \<in> set items.
           butlast (path_join ICONSET_DIR (fst it @ ''.png'')) = ICONSET_DIR \<and>
           node_at (fs w) (path_join ICONSET_DIR (fst it @ ''.png'')) \<noteq> Some Dir"
  shows "\<exists>w'. main_loop c items w = Inr w'"
  using assms
proof (induction items arbitrary: w)
  case Nil
  show ?case by simp
next
  case (Cons it items)
  obtain name sz where it: "it = (name, sz)" by (cases it)
  let ?p = "path_join ICONSET_DIR (name @ ''.png'')"
  let ?line = "''Wrote '' @ path_str ?p @ '' ('' @ py_str sz @ ''x'' @ py_str sz @ '')''"
  from Cons.prems(1) obtain b where b: "encode_png c sz = Inr b"
    by (auto simp: it)
  from Cons.prems(3) have p: "butlast ?p = ICONSET_DIR" "node_at (fs w) ?p \<noteq> Some Dir"
    by (auto simp: it)
  let ?w1 = "w\<lparr>fs := (fs w)(?p \<mapsto> File b), trace := trace w @ [Wrote ?p b]\<rparr>"
  have wb: "write_bytes ?p b w = Inr ?w1"
    using p Cons.prems(2) by (intro write_bytes_returns) simp_all
  have ne: "?p \<noteq> ICONSET_DIR" "?p \<noteq> []"
    using p(1) by (auto simp: ICONSET_DIR_parts)
  have dir: "node_at (fs (print ?line ?w1)) ICONSET_DIR = Some Dir"
    using Cons.prems(2) ne by (auto simp: print_def node_at_def split: if_splits)
  have rest: "\<forall>it \<in> set items.
           butlast (path_join ICONSET_DIR (fst it @ ''.png'')) = ICONSET_DIR \<and>
           node_at (fs (print ?line ?w1)) (path_join ICONSET_DIR (fst it @ ''.png'')) \<noteq> Some Dir"
    using Cons.prems(3) ne by (auto simp: print_def node_at_def)
  from Cons.IH [OF _ dir rest] Cons.prems(1) obtain w'
    where "main_loop c items (print ?line ?w1) = Inr w'"
    by auto
  then show ?case
    by (simp add: it b wb Let_def)
qed

lemma main_returns:
  assumes "mkdir_parents ICONSET_DIR True (fs w) = Inr f1"
    and "\<forall>it \<in> set SIZES. \<exists>b. encode_png c (snd it) = Inr b"
    and "\<forall>it \<in> set SIZES. f1 (path_join ICONSET_DIR (fst it @ ''.png'')) \<noteq> Some Dir"
  shows "\<exists>w'. main c w = Inr w'"
proof -
  have dir: "node_at (fs (w\<lparr>fs := f1\<rparr>)) ICONSET_DIR = Some Dir"
    using mkdir_parents_Inr [OF assms(1)] by simp
  have "\<forall>it \<in> set SIZES.
           butlast (path_join ICONSET_DIR (fst it @ ''.png'')) = ICONSET_DIR \<and>
           node_at (fs (w\<lparr>fs := f1\<rparr>)) (path_join ICONSET_DIR (fst it @ ''.png'')) \<noteq> Some Dir"
    using assms(3)
    apply (simp add: SIZES_def out_paths node_at_def)
    apply (simp add: ICONSET_DIR_parts)
    done
  from main_loop_returns [OF assms(2) dir this] show ?thesis
    by (simp add: main_def assms(1))
qed

lemma main_store_runs: "\<exists>w'. main zlib_store \<lparr>fs = Map.empty, trace = []\<rparr> = Inr w'"
proof -
  let ?f1 = "[[''client''] \<mapsto> Dir, [''client'', ''push-package''] \<mapsto> Dir,
          [''client'', ''push-package'', ''icon.iconset''] \<mapsto> Dir]"
  have mk: "mkdir_parents ICONSET_DIR True (fs \<lparr>fs = Map.empty, trace = []\<rparr>) = Inr ?f1"
    by (simp add: mkdir_iconset_empty)
  have enc: "\<forall>it \<in> set SIZES. \<exists>b. encode_png zlib_store (snd it) = Inr b"
    using encode_png_store_ok [of 16] encode_png_store_ok [of 32] encode_png_store_ok [of 64]
      encode_png_store_ok [of 128] encode_png_store_ok [of 256]
    by (auto simp: SIZES_def)
  have nd: "\<forall>it \<in> set SIZES. ?f1 (path_join ICONSET_DIR (fst it @ ''.png'')) \<noteq> Some Dir"
    by (simp add: SIZES_def out_paths)
  from main_returns [OF mk enc nd] show ?thesis .
qed

lemma encode_huge: "encode_png zlib_store 4294967295 = Inl StructError"
proof -
  let ?raw = "pixel_stream 4294967295"
  let ?z = "[0x78, 0x01] @ stored_blocks ?raw @ be_bytes 4 (adler32 ?raw)"
  have c: "zlib_store ?raw 9 = Inr ?z"
    by (simp add: zlib_store_def)
  have "length ?raw \<le> length ?z"
    using length_stored_blocks_ge [of ?raw] by simp
  then have "\<not> length ?z < 2 ^ 32"
    by (simp add: length_pixel_stream)
  then show ?thesis
    by (simp add: encode_png_eq c del: be_bytes.simps)
qed

lemma writes_of_append: "writes_of (xs @ ys) = writes_of xs @ writes_of ys"
  by (induction xs rule: writes_of.induct) simp_all

lemma main_trace:
  assumes "main c w = Inr w'"
  shows "\<exists>f1 b1 b2 b3 b4 b5 b6.
    mkdir_parents ICONSET_DIR True (fs w) = Inr f1 \<and>
    encode_png c 16 = Inr b1 \<and> encode_png c 32 = Inr b2 \<and> encode_png c 32 = Inr b3 \<and>
    encode_png c 64 = Inr b4 \<and> encode_png c 128 = Inr b5 \<and> encode_png c 256 = Inr b6 \<and>
    fs w' = f1
      ([''client'', ''push-package'', ''icon.iconset'', ''icon_16x16.png''] \<mapsto> File b1,
       [''client'', ''push-package'', ''icon.iconset'', ''icon_16x16@2x.png''] \<mapsto> File b2,
       [''client'', ''push-package'', ''icon.iconset'', ''icon_32x32.png''] \<mapsto> File b3,
       [''client'', ''push-package'', ''icon.iconset'', ''icon_32x32@2x.png''] \<mapsto> File b4,
       [''client'', ''push-package'', ''icon.iconset'', ''icon_128x128.png''] \<mapsto> File b5,
       [''client'', ''push-package'', ''icon.iconset'', ''icon_256x256.png''] \<mapsto> File b6) \<and>
    trace w' = trace w @
      [Wrote [''client'', ''push-package'', ''icon.iconset'', ''icon_16x16.png''] b1,
       Printed ''Wrote client/push-package/icon.iconset/icon_16x16.png (16x16)'',
       Wrote [''client'', ''push-package'', ''icon.iconset'', ''icon_16x16@2x.png''] b2,
       Printed ''Wrote client/push-package/icon.iconset/icon_16x16@2x.png (32x32)'',
       Wrote [''client'', ''push-package'', ''icon.iconset'', ''icon_32x32.png''] b3,
       Printed ''Wrote client/push-package/icon.iconset/icon_32x32.png (32x32)'',
       Wrote [''client'', ''push-package'', ''icon.iconset'', ''icon_32x32@2x.png''] b4,
       Printed ''Wrote client/push-package/icon.iconset/icon_32x32@2x.png (64x64)'',
       Wrote [''client'', ''push-package'', ''icon.iconset'', ''icon_128x128.png''] b5,
       Printed ''Wrote client/push-package/icon.iconset/icon_128x128.png (128x128)'',
       Wrote [''client'', ''push-package'', ''icon.iconset'', ''icon_256x256.png''] b6,
       Printed ''Wrote client/push-package/icon.iconset/icon_256x256.png (256x256)'']"
proof -
  from assms obtain f1 where mk: "mkdir_parents ICONSET_DIR True (fs w) = Inr f1"
    and l0: "main_loop c SIZES (w\<lparr>fs := f1\<rparr>) = Inr w'"
    by (auto simp: main_def bind_eq_Inr)
  from main_loop_Inr [OF l0] obtain bs
    where bs: "list_all2 (\<lambda>it b. encode_png c (snd it) = Inr b) SIZES bs"
      and w': "w' = foldl record_item (w\<lparr>fs := f1\<rparr>) (zip SIZES bs)"
    by blast
  from sizes_results [OF bs] obtain b1 b2 b3 b4 b5 b6 where bs_eq: "bs = [b1, b2, b3, b4, b5, b6]"
    and enc: "encode_png c 16 = Inr b1" "encode_png c 32 = Inr b2" "encode_png c 32 = Inr b3"
      "encode_png c 64 = Inr b4" "encode_png c 128 = Inr b5" "encode_png c 256 = Inr b6"
    by blast
  have "fs w' = f1
      ([''client'', ''push-package'', ''icon.iconset'', ''icon_16x16.png''] \<mapsto> File b1,
       [''client'', ''push-package'', ''icon.iconset'', ''icon_16x16@2x.png''] \<mapsto> File b2,
       [''client'', ''push-package'', ''icon.iconset'', ''icon_32x32.png''] \<mapsto> File b3,
       [''client'', ''push-package'', ''icon.iconset'', ''icon_32x32@2x.png''] \<mapsto> File b4,
       [''client'', ''push-package'', ''icon.iconset'', ''icon_128x128.png''] \<mapsto> File b5,
       [''client'', ''push-package'', ''icon.iconset'', ''icon_256x256.png''] \<mapsto> File b6)"
    and "trace w' = trace w @
      [Wrote [''client'', ''push-package'', ''icon.iconset'', ''icon_16x16.png''] b1,
       Printed ''Wrote client/push-package/icon.iconset/icon_16x16.png (16x16)'',
       Wrote [''client'', ''push-package'', ''icon.iconset'', ''icon_16x16@2x.png''] b2,
       Printed ''Wrote client/push-package/icon.iconset/icon_16x16@2x.png (32x32)'',
       Wrote [''client'', ''push-package'', ''icon.iconset'', ''icon_32x32.png''] b3,
       Printed ''Wrote client/push-package/icon.iconset/icon_32x32.png (32x32)'',
       Wrote [''client'', ''push-package'', ''icon.iconset'', ''icon_32x32@2x.png''] b4,
       Printed ''Wrote client/push-package/icon.iconset/icon_32x32@2x.png (64x64)'',
       Wrote [''client'', ''push-package'', ''icon.iconset'', ''icon_128x128.png''] b5,
       Printed ''Wrote client/push-package/icon.iconset/icon_128x128.png (128x128)'',
       Wrote [''client'', ''push-package'', ''icon.iconset'', ''icon_256x256.png''] b6,
       Printed ''Wrote client/push-package/icon.iconset/icon_256x256.png (256x256)'']"
    unfolding w' bs_eq fold_sizes by simp_all
  with mk enc show ?thesis by blast
qed

lemma encode_png_Inr:
  assumes "encode_png c sz = Inr bs"
  shows "0 \<le> sz \<and> sz < 2 ^ 32 \<and>
         (\<exists>idat. c (pixel_stream (nat sz)) 9 = Inr idat \<and> length idat < 2 ^ 32 \<and>
            bs = png_signature
                 @ wrap (ascii ''IHDR'') (be_bytes 4 sz @ be_bytes 4 sz @ [8, 6, 0, 0, 0])
                 @ wrap (ascii ''IDAT'') idat
                 @ wrap (ascii ''IEND'') [])"
  using assms unfolding encode_png_eq
  by (auto split: if_splits sum.splits)

lemma be_bytes_4:
  "be_bytes 4 n =
     [word_of_int (n div 16777216), word_of_int (n div 65536), word_of_int (n div 256),
      word_of_int n]"
  by (simp add: eval_nat_numeral zdiv_zmult2_eq [symmetric])

lemma png_signature_bytes: "png_signature = [0x89, 0x50, 0x4E, 0x47, 0x0D, 0x0A, 0x1A, 0x0A]"
  by (simp add: png_signature_def ascii_def)



lemma encode_png_zero_rejected:
  assumes "encode_png c 0 = Inr bs"
  shows "png_read inflate bs = None"
proof -
  from encode_png_Inr [OF assms] obtain idat
    where bs: "bs = png_signature
               @ wrap (ascii ''IHDR'') (be_bytes 4 0 @ be_bytes 4 0 @ [8, 6, 0, 0, 0])
               @ wrap (ascii ''IDAT'') idat
               @ wrap (ascii ''IEND'') []"
    by blast
  let ?h = "be_bytes 4 0 @ be_bytes 4 0 @ [8, 6, 0, 0, 0]"
  let ?rest = "wrap (ascii ''IDAT'') idat @ wrap (ascii ''IEND'') []"
  have h: "parse_ihdr ?h = None"
    using be_val_len [of 0] by (simp add: parse_ihdr_def del: be_bytes.simps)
  have "read_chunks (wrap (ascii ''IHDR'') ?h @ ?rest) =
          (case read_chunks ?rest of None \<Rightarrow> None | Some cs \<Rightarrow> Some ((ascii ''IHDR'', ?h) # cs))"
    by (rule read_chunks_wrap) simp_all
  then show ?thesis
    unfolding bs by (simp add: png_read_def h split: option.split del: be_bytes.simps)
qed

section \<open>The claims\<close>

text \<open>
  The theorems of this section quantify over the compression primitive. Where a
  statement speaks of the bytes the encoder returns, it assumes \<open>encode_png compress sz = Inr bs\<close>;
  when the encoder returns is the subject of claim C9.
\<close>

text \<open>
  \<^bold>\<open>Claim C1.\<close> For every size in \<open>{16, 32, 64, 128, 256}\<close>, decoding the bytes returned
  by the encoder yields an image of that width and height in which every pixel is
  \<open>(0x3B, 0x82, 0xF6, 0xFF)\<close>. The statement assumes that the reader's inflate inverts
  the compressor and that the file is shorter than \<open>2^31\<close> bytes, so that no chunk is
  longer than a reader has to accept.
\<close>

theorem decode_encode_png:
  assumes "sz \<in> {16, 32, 64, 128, 256}"
    and "encode_png compress sz = Inr bs"
    and "length bs < 2 ^ 31"
    and "\<forall>raw z. compress raw 9 = Inr z \<longrightarrow> inflate z = Some raw"
  shows "png_read inflate bs =
           Some \<lparr>img_width = nat sz, img_height = nat sz,
                 img_pixels = replicate (nat sz) (replicate (nat sz) (0x3B, 0x82, 0xF6, 0xFF))\<rparr>"
proof -
  from encode_png_Inr [OF assms(2)] obtain idat
    where c: "compress (pixel_stream (nat sz)) 9 = Inr idat"
      and bs: "bs = png_signature
                 @ wrap (ascii ''IHDR'') (be_bytes 4 sz @ be_bytes 4 sz @ [8, 6, 0, 0, 0])
                 @ wrap (ascii ''IDAT'') idat
                 @ wrap (ascii ''IEND'') []"
    by blast
  have len: "length idat < 2 ^ 31"
    using assms(3) unfolding bs by simp
  have inf: "inflate idat = Some (pixel_stream (nat sz))"
    using assms(4) c by blast
  have sz: "0 < sz" "sz < 2 ^ 31"
    using assms(1) by auto
  show ?thesis
    unfolding bs using sz len inf by (rule png_read_layout)
qed

theorem decode_encode_png_witness:
  "\<exists>bs. encode_png zlib_store 16 = Inr bs \<and>
        png_read zlib_store_inflate bs =
          Some \<lparr>img_width = 16, img_height = 16,
                img_pixels = replicate 16 (replicate 16 (0x3B, 0x82, 0xF6, 0xFF))\<rparr>"
proof -
  from encode_png_store_ok [of 16] obtain bs
    where bs: "encode_png zlib_store 16 = Inr bs" and len: "length bs < 2 ^ 31"
    by auto
  have "\<forall>raw z. zlib_store raw 9 = Inr z \<longrightarrow> zlib_store_inflate z = Some raw"
    using zlib_store_roundtrip by blast
  from decode_encode_png [of 16 zlib_store bs zlib_store_inflate, OF _ bs len this] bs
  show ?thesis by simp
qed

text \<open>
  \<^bold>\<open>Claim C2.\<close> A run of the workflow that completes has created the output directory
  and written exactly six files into it, with the six names of the table, each holding
  the encoding of its pixel size: 16, 32, 32, 64, 128 and 256.
\<close>

theorem main_writes_six_files:
  assumes "main compress w = Inr w'"
  shows "\<exists>f1 b16 b32 b64 b128 b256.
    mkdir_parents ICONSET_DIR True (fs w) = Inr f1 \<and>
    encode_png compress 16 = Inr b16 \<and> encode_png compress 32 = Inr b32 \<and>
    encode_png compress 64 = Inr b64 \<and> encode_png compress 128 = Inr b128 \<and>
    encode_png compress 256 = Inr b256 \<and>
    fs w' = f1
      ([''client'', ''push-package'', ''icon.iconset'', ''icon_16x16.png''] \<mapsto> File b16,
       [''client'', ''push-package'', ''icon.iconset'', ''icon_16x16@2x.png''] \<mapsto> File b32,
       [''client'', ''push-package'', ''icon.iconset'', ''icon_32x32.png''] \<mapsto> File b32,
       [''client'', ''push-package'', ''icon.iconset'', ''icon_32x32@2x.png''] \<mapsto> File b64,
       [''client'', ''push-package'', ''icon.iconset'', ''icon_128x128.png''] \<mapsto> File b128,
       [''client'', ''push-package'', ''icon.iconset'', ''icon_256x256.png''] \<mapsto> File b256) \<and>
    writes_of (trace w') = writes_of (trace w) @
      [([''client'', ''push-package'', ''icon.iconset'', ''icon_16x16.png''], b16),
       ([''client'', ''push-package'', ''icon.iconset'', ''icon_16x16@2x.png''], b32),
       ([''client'', ''push-package'', ''icon.iconset'', ''icon_32x32.png''], b32),
       ([''client'', ''push-package'', ''icon.iconset'', ''icon_32x32@2x.png''], b64),
       ([''client'', ''push-package'', ''icon.iconset'', ''icon_128x128.png''], b128),
       ([''client'', ''push-package'', ''icon.iconset'', ''icon_256x256.png''], b256)]"
proof -
  from main_trace [OF assms] obtain f1 b1 b2 b3 b4 b5 b6 where
    mk: "mkdir_parents ICONSET_DIR True (fs w) = Inr f1"
    and enc: "encode_png compress 16 = Inr b1" "encode_png compress 32 = Inr b2"
      "encode_png compress 32 = Inr b3" "encode_png compress 64 = Inr b4"
      "encode_png compress 128 = Inr b5" "encode_png compress 256 = Inr b6"
    and f: "fs w' = f1
      ([''client'', ''push-package'', ''icon.iconset'', ''icon_16x16.png''] \<mapsto> File b1,
       [''client'', ''push-package'', ''icon.iconset'', ''icon_16x16@2x.png''] \<mapsto> File b2,
       [''client'', ''push-package'', ''icon.iconset'', ''icon_32x32.png''] \<mapsto> File b3,
       [''client'', ''push-package'', ''icon.iconset'', ''icon_32x32@2x.png''] \<mapsto> File b4,
       [''client'', ''push-package'', ''icon.iconset'', ''icon_128x128.png''] \<mapsto> File b5,
       [''client'', ''push-package'', ''icon.iconset'', ''icon_256x256.png''] \<mapsto> File b6)"
    and t: "trace w' = trace w @
      [Wrote [''client'', ''push-package'', ''icon.iconset'', ''icon_16x16.png''] b1,
       Printed ''Wrote client/push-package/icon.iconset/icon_16x16.png (16x16)'',
       Wrote [''client'', ''push-package'', ''icon.iconset'', ''icon_16x16@2x.png''] b2,
       Printed ''Wrote client/push-package/icon.iconset/icon_16x16@2x.png (32x32)'',
       Wrote [''client'', ''push-package'', ''icon.iconset'', ''icon_32x32.png''] b3,
       Printed ''Wrote client/push-package/icon.iconset/icon_32x32.png (32x32)'',
       Wrote [''client'', ''push-package'', ''icon.iconset'', ''icon_32x32@2x.png''] b4,
       Printed ''Wrote client/push-package/icon.iconset/icon_32x32@2x.png (64x64)'',
       Wrote [''client'', ''push-package'', ''icon.iconset'', ''icon_128x128.png''] b5,
       Printed ''Wrote client/push-package/icon.iconset/icon_128x128.png (128x128)'',
       Wrote [''client'', ''push-package'', ''icon.iconset'', ''icon_256x256.png''] b6,
       Printed ''Wrote client/push-package/icon.iconset/icon_256x256.png (256x256)'']"
    by blast
  from enc have b3: "b3 = b2" by simp
  have "writes_of (trace w') = writes_of (trace w) @
      [([''client'', ''push-package'', ''icon.iconset'', ''icon_16x16.png''], b1),
       ([''client'', ''push-package'', ''icon.iconset'', ''icon_16x16@2x.png''], b2),
       ([''client'', ''push-package'', ''icon.iconset'', ''icon_32x32.png''], b3),
       ([''client'', ''push-package'', ''icon.iconset'', ''icon_32x32@2x.png''], b4),
       ([''client'', ''push-package'', ''icon.iconset'', ''icon_128x128.png''], b5),
       ([''client'', ''push-package'', ''icon.iconset'', ''icon_256x256.png''], b6)]"
    unfolding t by (simp add: writes_of_append)
  with mk enc f show ?thesis unfolding b3 by blast
qed

theorem main_writes_six_files_witness:
  "\<exists>w' f1 b16 b32 b64 b128 b256.
    main zlib_store \<lparr>fs = Map.empty, trace = []\<rparr> = Inr w' \<and>
    mkdir_parents ICONSET_DIR True Map.empty = Inr f1 \<and>
    encode_png zlib_store 16 = Inr b16 \<and> encode_png zlib_store 32 = Inr b32 \<and>
    encode_png zlib_store 64 = Inr b64 \<and> encode_png zlib_store 128 = Inr b128 \<and>
    encode_png zlib_store 256 = Inr b256 \<and>
    fs w' = f1
      ([''client'', ''push-package'', ''icon.iconset'', ''icon_16x16.png''] \<mapsto> File b16,
       [''client'', ''push-package'', ''icon.iconset'', ''icon_16x16@2x.png''] \<mapsto> File b32,
       [''client'', ''push-package'', ''icon.iconset'', ''icon_32x32.png''] \<mapsto> File b32,
       [''client'', ''push-package'', ''icon.iconset'', ''icon_32x32@2x.png''] \<mapsto> File b64,
       [''client'', ''push-package'', ''icon.iconset'', ''icon_128x128.png''] \<mapsto> File b128,
       [''client'', ''push-package'', ''icon.iconset'', ''icon_256x256.png''] \<mapsto> File b256) \<and>
    writes_of (trace w') =
      [([''client'', ''push-package'', ''icon.iconset'', ''icon_16x16.png''], b16),
       ([''client'', ''push-package'', ''icon.iconset'', ''icon_16x16@2x.png''], b32),
       ([''client'', ''push-package'', ''icon.iconset'', ''icon_32x32.png''], b32),
       ([''client'', ''push-package'', ''icon.iconset'', ''icon_32x32@2x.png''], b64),
       ([''client'', ''push-package'', ''icon.iconset'', ''icon_128x128.png''], b128),
       ([''client'', ''push-package'', ''icon.iconset'', ''icon_256x256.png''], b256)]"
proof -
  from main_store_runs obtain w' where w': "main zlib_store \<lparr>fs = Map.empty, trace = []\<rparr> = Inr w'"
    by blast
  from main_writes_six_files [OF w'] w' show ?thesis
    by auto
qed



text \<open>
  \<^bold>\<open>Claim C4.\<close> For every positive size, the header block has a 13-byte payload: the
  width and the height, each the size as a 4-byte big-endian integer, then bit depth 8,
  colour type 6, and compression, filter and interlace all 0. The header block starts
  at offset 8, so its payload starts at offset 16.
\<close>

theorem encode_png_header_fields:
  assumes "0 < sz" and "encode_png compress sz = Inr bs"
  shows "be_val (take 4 (drop 8 bs)) = 13 \<and>
         take 4 (drop 12 bs) = ascii ''IHDR'' \<and>
         int (be_val (take 4 (drop 16 bs))) = sz \<and>
         int (be_val (take 4 (drop 20 bs))) = sz \<and>
         take 5 (drop 24 bs) = [8, 6, 0, 0, 0]"
proof -
  from encode_png_Inr [OF assms(2)] obtain idat
    where sz: "0 \<le> sz" "sz < 2 ^ 32"
      and bs: "bs = png_signature
                 @ wrap (ascii ''IHDR'') (be_bytes 4 sz @ be_bytes 4 sz @ [8, 6, 0, 0, 0])
                 @ wrap (ascii ''IDAT'') idat
                 @ wrap (ascii ''IEND'') []"
    by blast
  have v: "int (be_val (be_bytes 4 sz)) = sz"
    using be_val_be_bytes_id [of sz 4] sz by simp
  have l: "be_val (be_bytes 4 13) = 13"
    using be_val_len [of 13] by simp
  show ?thesis
    unfolding bs by (simp add: wrap_def v l del: be_bytes.simps)
qed

theorem encode_png_header_fields_witness:
  "\<exists>bs. encode_png zlib_store 16 = Inr bs \<and>
         be_val (take 4 (drop 8 bs)) = 13 \<and>
         take 4 (drop 12 bs) = ascii ''IHDR'' \<and>
         int (be_val (take 4 (drop 16 bs))) = 16 \<and>
         int (be_val (take 4 (drop 20 bs))) = 16 \<and>
         take 5 (drop 24 bs) = [8, 6, 0, 0, 0]"
proof -
  from encode_png_store_ok [of 16] obtain bs
    where bs: "encode_png zlib_store 16 = Inr bs"
    by auto
  from encode_png_header_fields [of 16 zlib_store bs, OF _ bs] bs show ?thesis
    by auto
qed

text \<open>
  \<^bold>\<open>Claim C5.\<close> For every positive size, the payload of the data block is the result of
  compressing, at level 9, the pixel stream of \<open>size\<close> rows, each a \<open>0x00\<close> byte followed
  by \<open>size\<close> copies of the colour; that stream has \<open>size * (1 + 4 * size)\<close> bytes. The
  data block starts at offset 33, after the signature and the 25-byte header block.
\<close>

theorem encode_png_data_payload:
  assumes "0 < sz" and "encode_png compress sz = Inr bs"
  shows "\<exists>idat. compress (pixel_stream (nat sz)) 9 = Inr idat \<and>
           be_val (take 4 (drop 33 bs)) = length idat \<and>
           take 4 (drop 37 bs) = ascii ''IDAT'' \<and>
           take (length idat) (drop 41 bs) = idat \<and>
           length (pixel_stream (nat sz)) = nat sz * (1 + 4 * nat sz)"
proof -
  from encode_png_Inr [OF assms(2)] obtain idat
    where c: "compress (pixel_stream (nat sz)) 9 = Inr idat"
      and len: "length idat < 2 ^ 32"
      and bs: "bs = png_signature
                 @ wrap (ascii ''IHDR'') (be_bytes 4 sz @ be_bytes 4 sz @ [8, 6, 0, 0, 0])
                 @ wrap (ascii ''IDAT'') idat
                 @ wrap (ascii ''IEND'') []"
    by blast
  have "be_val (take 4 (drop 33 bs)) = length idat"
    and "take 4 (drop 37 bs) = ascii ''IDAT''"
    and "take (length idat) (drop 41 bs) = idat"
    unfolding bs using len by (simp_all add: wrap_def be_val_len del: be_bytes.simps)
  with c length_pixel_stream [of "nat sz"] show ?thesis by blast
qed

theorem encode_png_data_payload_witness:
  "\<exists>bs idat. encode_png zlib_store 16 = Inr bs \<and>
           zlib_store (pixel_stream 16) 9 = Inr idat \<and>
           be_val (take 4 (drop 33 bs)) = length idat \<and>
           take 4 (drop 37 bs) = ascii ''IDAT'' \<and>
           take (length idat) (drop 41 bs) = idat \<and>
           length (pixel_stream 16) = 16 * (1 + 4 * 16)"
proof -
  from encode_png_store_ok [of 16] obtain bs
    where bs: "encode_png zlib_store 16 = Inr bs"
    by auto
  from encode_png_data_payload [of 16 zlib_store bs, OF _ bs] bs show ?thesis
    by auto
qed





text \<open>
  \<^bold>\<open>Claim C8,\<close> as amended. For every negative size the encoder raises \<^verbatim>\<open>struct.error\<close>
  when it packs the header, before any byte is produced.
\<close>

theorem encode_png_negative_raises:
  assumes "sz < 0"
  shows "encode_png compress sz = Inl StructError"
  using assms by (simp add: encode_png_eq)

theorem encode_png_negative_raises_witness:
  "encode_png zlib_store (- 1) = Inl StructError"
  using encode_png_negative_raises [of "- 1" zlib_store] by simp

text \<open>
  Claim C8 as stated also covers size 0, and fails there: the encoder returns a file
  whose header declares a 0 by 0 image, which the reader rejects because a PNG
  dimension must be positive. The bytes are those for the reference compressor.
\<close>

theorem encode_png_zero_returns_rejected_file:
  "encode_png zlib_store 0 =
     Inr [0x89, 0x50, 0x4E, 0x47, 0x0D, 0x0A, 0x1A, 0x0A,
         0x00, 0x00, 0x00, 0x0D, 0x49, 0x48, 0x44, 0x52,
         0x00, 0x00, 0x00, 0x00, 0x00, 0x00, 0x00, 0x00,
         0x08, 0x06, 0x00, 0x00, 0x00, 0x3B, 0x8B, 0x7C, 0x12,
         0x00, 0x00, 0x00, 0x0B, 0x49, 0x44, 0x41, 0x54,
         0x78, 0x01, 0x01, 0x00, 0x00, 0xFF, 0xFF, 0x00, 0x00, 0x00, 0x01,
         0x89, 0xD6, 0xAE, 0x5F,
         0x00, 0x00, 0x00, 0x00, 0x49, 0x45, 0x4E, 0x44,
         0xAE, 0x42, 0x60, 0x82] \<and>
   png_read zlib_store_inflate
     [0x89, 0x50, 0x4E, 0x47, 0x0D, 0x0A, 0x1A, 0x0A,
     0x00, 0x00, 0x00, 0x0D, 0x49, 0x48, 0x44, 0x52,
     0x00, 0x00, 0x00, 0x00, 0x00, 0x00, 0x00, 0x00,
     0x08, 0x06, 0x00, 0x00, 0x00, 0x3B, 0x8B, 0x7C, 0x12,
     0x00, 0x00, 0x00, 0x0B, 0x49, 0x44, 0x41, 0x54,
     0x78, 0x01, 0x01, 0x00, 0x00, 0xFF, 0xFF, 0x00, 0x00, 0x00, 0x01,
     0x89, 0xD6, 0xAE, 0x5F,
     0x00, 0x00, 0x00, 0x00, 0x49, 0x45, 0x4E, 0x44,
     0xAE, 0x42, 0x60, 0x82] = None"
proof -
  have z: "zlib_store (pixel_stream 0) 9 = Inr [120, 1, 1, 0, 0, 255, 255, 0, 0, 0, 1]"
    by (simp add: zlib_store_def pixel_stream_def stored_blocks.simps le16_def adler32_def be_bytes_4)
  have c1: "crc32 [73, 72, 68, 82, 0, 0, 0, 0, 0, 0, 0, 0, 8, 6, 0, 0, 0] = 0x3B8B7C12"
    by (simp add: crc32_def crc_byte_unfold crc_bit_def)
  have c2: "crc32 [73, 68, 65, 84, 120, 1, 1, 0, 0, 255, 255, 0, 0, 0, 1] = 0x89D6AE5F"
    by (simp add: crc32_def crc_byte_unfold crc_bit_def)
  have c3: "crc32 [73, 69, 78, 68] = 0xAE426082"
    by (simp add: crc32_def crc_byte_unfold crc_bit_def)
  have enc: "encode_png zlib_store 0 =
     Inr [0x89, 0x50, 0x4E, 0x47, 0x0D, 0x0A, 0x1A, 0x0A,
         0x00, 0x00, 0x00, 0x0D, 0x49, 0x48, 0x44, 0x52,
         0x00, 0x00, 0x00, 0x00, 0x00, 0x00, 0x00, 0x00,
         0x08, 0x06, 0x00, 0x00, 0x00, 0x3B, 0x8B, 0x7C, 0x12,
         0x00, 0x00, 0x00, 0x0B, 0x49, 0x44, 0x41, 0x54,
         0x78, 0x01, 0x01, 0x00, 0x00, 0xFF, 0xFF, 0x00, 0x00, 0x00, 0x01,
         0x89, 0xD6, 0xAE, 0x5F,
         0x00, 0x00, 0x00, 0x00, 0x49, 0x45, 0x4E, 0x44,
         0xAE, 0x42, 0x60, 0x82]"
    by (simp add: encode_png_eq z wrap_def png_signature_bytes ascii_def c1 c2 c3 be_bytes_4)
  from encode_png_zero_rejected [OF enc] enc show ?thesis by simp
qed

text \<open>
  \<^bold>\<open>Claim C9,\<close> as amended. For every size with \<open>0 \<le> size < 2^32\<close> for which compressing
  the pixel stream succeeds with fewer than \<open>2^32\<close> bytes, the encoder returns a byte
  sequence. For size 0 the pixel stream is empty, the header declares width 0 and
  height 0, and the payload of the data block is the compression of the empty stream.
\<close>

theorem encode_png_returns:
  assumes "0 \<le> sz" and "sz < 2 ^ 32"
    and "compress (pixel_stream (nat sz)) 9 = Inr idat" and "length idat < 2 ^ 32"
  shows "\<exists>bs. encode_png compress sz = Inr bs \<and>
           (sz = 0 \<longrightarrow>
              compress [] 9 = Inr idat \<and>
              be_val (take 4 (drop 16 bs)) = 0 \<and>
              be_val (take 4 (drop 20 bs)) = 0 \<and>
              take 4 (drop 37 bs) = ascii ''IDAT'' \<and>
              take (length idat) (drop 41 bs) = idat)"
proof -
  let ?bs = "png_signature
                 @ wrap (ascii ''IHDR'') (be_bytes 4 sz @ be_bytes 4 sz @ [8, 6, 0, 0, 0])
                 @ wrap (ascii ''IDAT'') idat
                 @ wrap (ascii ''IEND'') []"
  have enc: "encode_png compress sz = Inr ?bs"
    using assms by (simp add: encode_png_eq del: be_bytes.simps)
  have "compress [] 9 = Inr idat \<and>
        be_val (take 4 (drop 16 ?bs)) = 0 \<and>
        be_val (take 4 (drop 20 ?bs)) = 0 \<and>
        take 4 (drop 37 ?bs) = ascii ''IDAT'' \<and>
        take (length idat) (drop 41 ?bs) = idat" if "sz = 0"
    using assms(3) be_val_len [of 0] unfolding that
    by (simp add: wrap_def pixel_stream_def del: be_bytes.simps)
  with enc show ?thesis by blast
qed

theorem encode_png_returns_witness:
  "\<exists>bs idat. encode_png zlib_store 0 = Inr bs \<and>
         zlib_store [] 9 = Inr idat \<and>
         be_val (take 4 (drop 16 bs)) = 0 \<and>
         be_val (take 4 (drop 20 bs)) = 0 \<and>
         take 4 (drop 37 bs) = ascii ''IDAT'' \<and>
         take (length idat) (drop 41 bs) = idat"
proof -
  have z: "zlib_store (pixel_stream (nat 0)) 9 = Inr [120, 1, 1, 0, 0, 255, 255, 0, 0, 0, 1]"
    by (simp add: zlib_store_def pixel_stream_def stored_blocks.simps le16_def adler32_def be_bytes_4)
  from encode_png_returns [of 0 zlib_store "[120, 1, 1, 0, 0, 255, 255, 0, 0, 0, 1]", OF _ _ z]
  show ?thesis by fastforce
qed

text \<open>
  Claim C9 as stated, for every size below \<open>2^32\<close>, fails at the largest of them: the
  compressed stream has \<open>2^32\<close> bytes or more, and packing its length into the data
  block raises \<^verbatim>\<open>struct.error\<close>. The second lemma shows the same for every compressor
  that cannot shrink its input by more than deflate's limit of 1032 to 1.
\<close>

theorem encode_png_huge_raises:
  "encode_png zlib_store 4294967295 = Inl StructError"
  by (rule encode_huge)

lemma encode_png_huge_any_deflate:
  assumes "\<forall>x z. c x 9 = Inr z \<longrightarrow> length x \<le> 1032 * length z"
  shows "\<exists>e. encode_png c 4294967295 = Inl e"
proof (cases "c (pixel_stream 4294967295) 9")
  case (Inl e)
  then show ?thesis by (simp add: encode_png_eq)
next
  case (Inr z)
  with assms have "length (pixel_stream 4294967295) \<le> 1032 * length z" by blast
  then have "\<not> length z < 2 ^ 32" by (simp add: length_pixel_stream)
  with Inr show ?thesis by (simp add: encode_png_eq del: be_bytes.simps)
qed

text \<open>
  \<^bold>\<open>Claim C10.\<close> A run of the workflow that completes has written the six files and
  printed the six status lines in the order of the table, each line right after its
  file.
\<close>

theorem main_order:
  assumes "main compress w = Inr w'"
  shows "\<exists>b1 b2 b3 b4 b5 b6.
    encode_png compress 16 = Inr b1 \<and> encode_png compress 32 = Inr b2 \<and>
    encode_png compress 32 = Inr b3 \<and> encode_png compress 64 = Inr b4 \<and>
    encode_png compress 128 = Inr b5 \<and> encode_png compress 256 = Inr b6 \<and>
    trace w' = trace w @
      [Wrote [''client'', ''push-package'', ''icon.iconset'', ''icon_16x16.png''] b1,
       Printed ''Wrote client/push-package/icon.iconset/icon_16x16.png (16x16)'',
       Wrote [''client'', ''push-package'', ''icon.iconset'', ''icon_16x16@2x.png''] b2,
       Printed ''Wrote client/push-package/icon.iconset/icon_16x16@2x.png (32x32)'',
       Wrote [''client'', ''push-package'', ''icon.iconset'', ''icon_32x32.png''] b3,
       Printed ''Wrote client/push-package/icon.iconset/icon_32x32.png (32x32)'',
       Wrote [''client'', ''push-package'', ''icon.iconset'', ''icon_32x32@2x.png''] b4,
       Printed ''Wrote client/push-package/icon.iconset/icon_32x32@2x.png (64x64)'',
       Wrote [''client'', ''push-package'', ''icon.iconset'', ''icon_128x128.png''] b5,
       Printed ''Wrote client/push-package/icon.iconset/icon_128x128.png (128x128)'',
       Wrote [''client'', ''push-package'', ''icon.iconset'', ''icon_256x256.png''] b6,
       Printed ''Wrote client/push-package/icon.iconset/icon_256x256.png (256x256)'']"
  using main_trace [OF assms] by blast

theorem main_order_witness:
  "\<exists>w' b1 b2 b3 b4 b5 b6.
    main zlib_store \<lparr>fs = Map.empty, trace = []\<rparr> = Inr w' \<and>
    encode_png zlib_store 16 = Inr b1 \<and> encode_png zlib_store 32 = Inr b2 \<and>
    encode_png zlib_store 32 = Inr b3 \<and> encode_png zlib_store 64 = Inr b4 \<and>
    encode_png zlib_store 128 = Inr b5 \<and> encode_png zlib_store 256 = Inr b6 \<and>
    trace w' =
      [Wrote [''client'', ''push-package'', ''icon.iconset'', ''icon_16x16.png''] b1,
       Printed ''Wrote client/push-package/icon.iconset/icon_16x16.png (16x16)'',
       Wrote [''client'', ''push-package'', ''icon.iconset'', ''icon_16x16@2x.png''] b2,
       Printed ''Wrote client/push-package/icon.iconset/icon_16x16@2x.png (32x32)'',
       Wrote [''client'', ''push-package'', ''icon.iconset'', ''icon_32x32.png''] b3,
       Printed ''Wrote client/push-package/icon.iconset/icon_32x32.png (32x32)'',
       Wrote [''client'', ''push-package'', ''icon.iconset'', ''icon_32x32@2x.png''] b4,
       Printed ''Wrote client/push-package/icon.iconset/icon_32x32@2x.png (64x64)'',
       Wrote [''client'', ''push-package'', ''icon.iconset'', ''icon_128x128.png''] b5,
       Printed ''Wrote client/push-package/icon.iconset/icon_128x128.png (128x128)'',
       Wrote [''client'', ''push-package'', ''icon.iconset'', ''icon_256x256.png''] b6,
       Printed ''Wrote client/push-package/icon.iconset/icon_256x256.png (256x256)'']"
proof -
  from main_store_runs obtain w' where w': "main zlib_store \<lparr>fs = Map.empty, trace = []\<rparr> = Inr w'"
    by blast
  from main_order [OF w'] w' show ?thesis
    by auto
qed

end
